theory Spec2Isabelle
  imports
    Complex_Main
    "HOL-Library.Char_ord"
    "HOL-Library.Product_Lexorder"
    "HOL-Library.Multiset"
begin

section \<open>The password generator (\<open>2)pass_generator.py\<close>)\<close>

text \<open>
  A Python \<open>str\<close> is modelled as a \<open>string\<close> (a list of \<open>char\<close>). A \<open>char\<close> is one of
  the code points 0..255; every character the program's constants contain is ASCII.
  Characters are ordered by code point (\<open>HOL-Library.Char_ord\<close>), tuples
  lexicographically (\<open>HOL-Library.Product_Lexorder\<close>), as Python orders them.
\<close>

subsection \<open>Constants\<close>

definition AMBIGUOUS_CHARS :: string where
  "AMBIGUOUS_CHARS = ''O0Il1''"

text \<open>
  The 32 characters of \<open>SYMBOLS\<close>, in the order of the source literal; backslash (0x5C),
  single quote (0x27), double quote (0x22) and backquote (0x60) are written by code.
\<close>

definition SYMBOLS :: string where
  "SYMBOLS = ''!@#$%^&*()-_=+[{]}'' @ [CHR 0x5C] @ ''|;:'' @ [CHR 0x27, CHR 0x22]
     @ '',<.>/?'' @ [CHR 0x60] @ ''~''"

text \<open>\<open>string.ascii_lowercase\<close>, \<open>string.ascii_uppercase\<close> and \<open>string.digits\<close>.\<close>

definition ascii_lowercase :: string where
  "ascii_lowercase = ''abcdefghijklmnopqrstuvwxyz''"

definition ascii_uppercase :: string where
  "ascii_uppercase = ''ABCDEFGHIJKLMNOPQRSTUVWXYZ''"

definition digits :: string where
  "digits = ''0123456789''"

subsection \<open>\<open>build_charset\<close>\<close>

text \<open>
  \<open>str.isalnum\<close> on a single character with code point below 256: the ASCII digits and
  letters, and the Latin-1 letters and numeric characters.
\<close>

definition isalnum :: "char \<Rightarrow> bool" where
  "isalnum c =
     (let n = (of_char c :: nat)
      in (48 \<le> n \<and> n \<le> 57) \<or> (65 \<le> n \<and> n \<le> 90) \<or> (97 \<le> n \<and> n \<le> 122)
         \<or> n = 170 \<or> n = 178 \<or> n = 179 \<or> n = 181 \<or> n = 185 \<or> n = 186
         \<or> (188 \<le> n \<and> n \<le> 190) \<or> (192 \<le> n \<and> n \<le> 214)
         \<or> (216 \<le> n \<and> n \<le> 246) \<or> (248 \<le> n \<and> n \<le> 255))"

text \<open>
  \<open>set(charset)\<close> holds each character of \<open>charset\<close> once, and \<open>sorted\<close> iterates over
  it in an order that depends on the hash seed of the run. The iteration order is a
  parameter \<open>set_iter\<close> of the model; \<open>py_set_order\<close> says that it lists exactly the
  distinct characters of its argument. \<open>remdups\<close> is one such order.
\<close>

definition py_set_order :: "(string \<Rightarrow> string) \<Rightarrow> bool" where
  "py_set_order set_iter \<longleftrightarrow> (\<forall>xs. distinct (set_iter xs) \<and> set (set_iter xs) = set xs)"

text \<open>The sort key of line 41: \<open>lambda c: (c.isalnum()==False, c)\<close>.\<close>

definition charset_key :: "char \<Rightarrow> bool \<times> char" where
  "charset_key c = (isalnum c = False, c)"

text \<open>
  \<open>sorted\<close> is a stable sort by key, as \<open>sort_key\<close> is; the generator expression of line 39
  is a \<open>filter\<close>.
\<close>

definition build_charset ::
  "(string \<Rightarrow> string) \<Rightarrow> bool \<Rightarrow> bool \<Rightarrow> bool \<Rightarrow> bool \<Rightarrow> bool \<Rightarrow> string" where
  "build_charset set_iter use_lower use_upper use_digits use_symbols avoid_ambiguous =
     (let charset = [];
          charset = (if use_lower then charset @ ascii_lowercase else charset);
          charset = (if use_upper then charset @ ascii_uppercase else charset);
          charset = (if use_digits then charset @ digits else charset);
          charset = (if use_symbols then charset @ SYMBOLS else charset);
          charset = (if avoid_ambiguous
                     then filter (\<lambda>ch. ch \<notin> set AMBIGUOUS_CHARS) charset else charset)
      in sort_key charset_key (set_iter charset))"

subsection \<open>Entropy and strength\<close>

text \<open>
  Python exceptions are values: \<open>ValueError\<close>, \<open>IndexError\<close> and \<open>OverflowError\<close> with
  their messages.
\<close>

datatype error = ValueError string | IndexError string | OverflowError string

text \<open>
  A Python \<open>float\<close> is an IEEE 754 double: a finite value, which is a real number, an
  infinity or a NaN. (The two zeros are not distinguished.)
\<close>

datatype pyfloat = Finite real | PosInf | NegInf | NaN










text \<open>
  The argument of \<open>strength_label\<close> is a finite \<open>float\<close> or an \<open>int\<close>, that is a real
  number, and Python compares it with an \<open>int\<close> literal exactly. (An infinity compares
  as a value beyond every threshold does; a NaN compares false with every number.)
\<close>

definition strength_label :: "real \<Rightarrow> string" where
  "strength_label bits =
     (if bits < 28 then ''Very Weak''
      else if bits < 36 then ''Weak''
      else if bits < 60 then ''Reasonable''
      else if bits < 80 then ''Strong''
      else ''Very Strong'')"

text \<open>The position of a label in the order Very Weak < Weak < Reasonable < Strong < Very Strong.\<close>

definition label_rank :: "string \<Rightarrow> nat option" where
  "label_rank l =
     (if l = ''Very Weak'' then Some 0
      else if l = ''Weak'' then Some 1
      else if l = ''Reasonable'' then Some 2
      else if l = ''Strong'' then Some 3
      else if l = ''Very Strong'' then Some 4
      else None)"

subsection \<open>The random source\<close>

text \<open>
  \<open>secrets\<close> draws from the operating system's entropy source. The source is modelled
  as the infinite sequence of numbers it will deliver; \<open>randbelow n\<close> consumes the next
  one and reduces it below \<open>n\<close>, so every index below \<open>n\<close> is a possible outcome and the
  functions below are evaluated for every sequence. It is only called with \<open>n > 0\<close>.
\<close>

type_synonym rng = "nat \<Rightarrow> nat"

definition randbelow :: "nat \<Rightarrow> rng \<Rightarrow> nat \<times> rng" where
  "randbelow n g = (g 0 mod n, \<lambda>i. g (Suc i))"

text \<open>
  \<open>secure_choice(seq)\<close> is \<open>secrets.choice(seq)\<close>: \<open>IndexError\<close> on an empty sequence,
  otherwise \<open>seq[randbelow(len(seq))]\<close>.
\<close>

definition secure_choice :: "'a list \<Rightarrow> rng \<Rightarrow> error + ('a \<times> rng)" where
  "secure_choice seq g =
     (if length seq = 0 then Inl (IndexError ''Cannot choose from an empty sequence'')
      else (case randbelow (length seq) g of (i, g') \<Rightarrow> Inr (seq ! i, g')))"

text \<open>
  \<open>random.shuffle\<close>, which \<open>secrets.SystemRandom().shuffle\<close> runs on the secure source:
  for \<open>i\<close> from \<open>len(x) - 1\<close> down to 1, \<open>j = randbelow(i + 1)\<close> and
  \<open>x[i], x[j] = x[j], x[i]\<close>.
\<close>

fun shuffle_down :: "nat \<Rightarrow> 'a list \<Rightarrow> rng \<Rightarrow> 'a list \<times> rng" where
  "shuffle_down 0 x g = (x, g)"
| "shuffle_down (Suc k) x g =
     (case randbelow (Suc k + 1) g of
        (j, g') \<Rightarrow> shuffle_down k (x[Suc k := x ! j, j := x ! Suc k]) g')"

definition shuffle :: "'a list \<Rightarrow> rng \<Rightarrow> 'a list \<times> rng" where
  "shuffle x g = shuffle_down (length x - 1) x g"

subsection \<open>\<open>generate_single_password\<close>\<close>

text \<open>Line 83: \<open>[secure_choice(chars) for _, chars in required_classes]\<close>.\<close>

fun choose_each :: "(string \<times> string) list \<Rightarrow> rng \<Rightarrow> error + (string \<times> rng)" where
  "choose_each [] g = Inr ([], g)"
| "choose_each ((name, chars) # rest) g =
     (case secure_choice chars g of
        Inl e \<Rightarrow> Inl e
      | Inr (c, g') \<Rightarrow>
          (case choose_each rest g' of
             Inl e \<Rightarrow> Inl e
           | Inr (cs, g'') \<Rightarrow> Inr (c # cs, g'')))"

text \<open>Lines 85-86: \<open>for _ in range(remaining): pw_chars.append(secure_choice(charset))\<close>.\<close>

fun append_choices :: "nat \<Rightarrow> string \<Rightarrow> string \<Rightarrow> rng \<Rightarrow> error + (string \<times> rng)" where
  "append_choices 0 charset pw_chars g = Inr (pw_chars, g)"
| "append_choices (Suc n) charset pw_chars g =
     (case secure_choice charset g of
        Inl e \<Rightarrow> Inl e
      | Inr (c, g') \<Rightarrow> append_choices n charset (pw_chars @ [c]) g')"

text \<open>Line 91: \<open>"".join(secure_choice(charset) for _ in range(length))\<close>.\<close>

fun join_choices :: "nat \<Rightarrow> string \<Rightarrow> rng \<Rightarrow> error + (string \<times> rng)" where
  "join_choices 0 charset g = Inr ([], g)"
| "join_choices (Suc n) charset g =
     (case secure_choice charset g of
        Inl e \<Rightarrow> Inl e
      | Inr (c, g') \<Rightarrow>
          (case join_choices n charset g' of
             Inl e \<Rightarrow> Inl e
           | Inr (cs, g'') \<Rightarrow> Inr (c # cs, g'')))"

text \<open>
  The argument \<open>classes\<close> is \<open>None\<close> (the default) or a list of pairs (name, chars).
  \<open>classes_list\<close> is the list the code tests for truth and iterates over: \<open>None\<close> and
  the empty list are both false.
\<close>

definition classes_list :: "(string \<times> string) list option \<Rightarrow> (string \<times> string) list" where
  "classes_list classes = (case classes of None \<Rightarrow> [] | Some cs \<Rightarrow> cs)"

text \<open>The three errors of the function, under the names the specification gives them.\<close>

definition EmptyAlphabetError :: error where
  "EmptyAlphabetError = ValueError ''Character set is empty.''"

definition InvalidLengthError :: error where
  "InvalidLengthError = ValueError ''Length must be at least 1.''"

definition LengthTooShortError :: error where
  "LengthTooShortError =
     ValueError ''Length is too short to include at least one from each required class.''"

text \<open>
  The parameter \<open>length\<close> is written \<open>len\<close>. The result is the error raised, or the
  password with the random source as the call leaves it.
\<close>

definition generate_single_password ::
  "int \<Rightarrow> string \<Rightarrow> bool \<Rightarrow> (string \<times> string) list option \<Rightarrow> rng
     \<Rightarrow> error + (string \<times> rng)" where
  "generate_single_password len charset require_each classes g =
     (if charset = [] then Inl (ValueError ''Character set is empty.'')
      else if len < 1 then Inl (ValueError ''Length must be at least 1.'')
      else if require_each \<and> classes_list classes \<noteq> [] then
        (let required_classes = filter (\<lambda>cls. snd cls \<noteq> []) (classes_list classes)
         in if len < int (length required_classes)
            then Inl (ValueError
              ''Length is too short to include at least one from each required class.'')
            else
              (case choose_each required_classes g of
                 Inl e \<Rightarrow> Inl e
               | Inr (pw_chars, g1) \<Rightarrow>
                   (let remaining = nat (len - int (length pw_chars))
                    in case append_choices remaining charset pw_chars g1 of
                         Inl e \<Rightarrow> Inl e
                       | Inr (pw_chars, g2) \<Rightarrow> Inr (shuffle pw_chars g2))))
      else join_choices (nat len) charset g)"

text \<open>The classes with a non-empty pool (line 79), for stating the properties.\<close>

definition nonempty_classes :: "(string \<times> string) list option \<Rightarrow> (string \<times> string) list" where
  "nonempty_classes classes = filter (\<lambda>cls. snd cls \<noteq> []) (classes_list classes)"

section \<open>Auxiliary facts\<close>

subsection \<open>Random draws\<close>

lemma secure_choice_ok:
  "seq \<noteq> [] \<Longrightarrow> \<exists>c g'. secure_choice seq g = Inr (c, g') \<and> c \<in> set seq"
  by (simp add: secure_choice_def randbelow_def)

lemma choose_each_ok:
  "\<forall>cls \<in> set cs. snd cls \<noteq> [] \<Longrightarrow>
   \<exists>pw g'. choose_each cs g = Inr (pw, g') \<and> list_all2 (\<lambda>cls c. c \<in> set (snd cls)) cs pw"
proof (induction cs arbitrary: g)
  case Nil
  then show ?case by simp
next
  case (Cons cls cs)
  obtain name chars where cls: "cls = (name, chars)" by (cases cls)
  with Cons.prems have "chars \<noteq> []" by simp
  then obtain c g1 where c: "secure_choice chars g = Inr (c, g1)" "c \<in> set chars"
    using secure_choice_ok by blast
  from Cons.prems have "\<forall>cls \<in> set cs. snd cls \<noteq> []" by simp
  from Cons.IH [OF this, of g1] obtain pw g2 where
    pw: "choose_each cs g1 = Inr (pw, g2)" "list_all2 (\<lambda>cls c. c \<in> set (snd cls)) cs pw"
    by blast
  show ?case using cls c pw by simp
qed

lemma append_choices_ok:
  "charset \<noteq> [] \<Longrightarrow>
   \<exists>ex g'. append_choices n charset pw g = Inr (pw @ ex, g') \<and> length ex = n
      \<and> set ex \<subseteq> set charset"
proof (induction n arbitrary: pw g)
  case 0
  then show ?case by simp
next
  case (Suc n)
  then obtain c g1 where c: "secure_choice charset g = Inr (c, g1)" "c \<in> set charset"
    using secure_choice_ok by blast
  from Suc.IH [OF Suc.prems, of "pw @ [c]" g1] obtain ex g2 where
    ex: "append_choices n charset (pw @ [c]) g1 = Inr ((pw @ [c]) @ ex, g2)"
        "length ex = n" "set ex \<subseteq> set charset"
    by blast
  have "append_choices (Suc n) charset pw g = Inr (pw @ (c # ex), g2)"
    using c ex by simp
  moreover have "length (c # ex) = Suc n" "set (c # ex) \<subseteq> set charset"
    using c ex by simp_all
  ultimately show ?case by blast
qed

lemma join_choices_ok:
  "charset \<noteq> [] \<Longrightarrow>
   \<exists>pw g'. join_choices n charset g = Inr (pw, g') \<and> length pw = n \<and> set pw \<subseteq> set charset"
proof (induction n arbitrary: g)
  case 0
  then show ?case by simp
next
  case (Suc n)
  then obtain c g1 where c: "secure_choice charset g = Inr (c, g1)" "c \<in> set charset"
    using secure_choice_ok by blast
  from Suc.IH [OF Suc.prems, of g1] obtain pw g2 where
    pw: "join_choices n charset g1 = Inr (pw, g2)" "length pw = n" "set pw \<subseteq> set charset"
    by blast
  show ?case using c pw by simp
qed

lemma mset_shuffle_down:
  "k < length x \<Longrightarrow> mset (fst (shuffle_down k x g)) = mset x"
proof (induction k arbitrary: x g)
  case 0
  then show ?case by simp
next
  case (Suc k)
  let ?j = "g 0 mod (Suc k + 1)"
  let ?x' = "x[Suc k := x ! ?j, ?j := x ! Suc k]"
  have "?j < Suc k + 1" by simp
  with Suc.prems have j: "?j < length x" by linarith
  have "mset ?x' = mset x" using j Suc.prems by (simp add: mset_swap)
  moreover have "k < length ?x'" using Suc.prems by simp
  ultimately show ?case using Suc.IH [of ?x' "\<lambda>i. g (Suc i)"]
    by (simp add: randbelow_def)
qed

lemma mset_shuffle: "mset (fst (shuffle x g)) = mset x"
proof (cases x)
  case Nil
  then show ?thesis by (simp add: shuffle_def)
next
  case (Cons a as)
  then show ?thesis by (simp add: shuffle_def mset_shuffle_down)
qed

subsection \<open>The two branches of the generator\<close>

lemma nonempty_classes_pools: "\<forall>cls \<in> set (nonempty_classes classes). snd cls \<noteq> []"
  by (simp add: nonempty_classes_def)

lemma generate_required_branch:
  assumes "charset \<noteq> []" and "1 \<le> len" and "require_each" and "classes_list classes \<noteq> []"
    and "int (length (nonempty_classes classes)) \<le> len"
  shows "\<exists>pw0 ex g2.
           list_all2 (\<lambda>cls c. c \<in> set (snd cls)) (nonempty_classes classes) pw0
         \<and> length ex = nat (len - int (length pw0))
         \<and> set ex \<subseteq> set charset
         \<and> generate_single_password len charset require_each classes g
             = Inr (shuffle (pw0 @ ex) g2)"
proof -
  obtain pw0 g1 where
    pw0: "choose_each (nonempty_classes classes) g = Inr (pw0, g1)"
      "list_all2 (\<lambda>cls c. c \<in> set (snd cls)) (nonempty_classes classes) pw0"
    using choose_each_ok [OF nonempty_classes_pools] by blast
  obtain ex g2 where
    ex: "append_choices (nat (len - int (length pw0))) charset pw0 g1 = Inr (pw0 @ ex, g2)"
      "length ex = nat (len - int (length pw0))" "set ex \<subseteq> set charset"
    using append_choices_ok [OF assms(1)] by blast
  have "generate_single_password len charset require_each classes g
          = Inr (shuffle (pw0 @ ex) g2)"
    using assms pw0(1) ex(1)
    by (simp add: generate_single_password_def nonempty_classes_def Let_def)
  with pw0(2) ex(2,3) show ?thesis by blast
qed

lemma generate_plain_branch:
  assumes "charset \<noteq> []" and "1 \<le> len" and "\<not> (require_each \<and> classes_list classes \<noteq> [])"
  shows "generate_single_password len charset require_each classes g
           = join_choices (nat len) charset g"
  using assms by (auto simp: generate_single_password_def)

lemma set_shuffle: "set (fst (shuffle x g)) = set x"
  using mset_shuffle [of x g] by (metis set_mset_mset)

lemma length_shuffle: "length (fst (shuffle x g)) = length x"
  using mset_shuffle [of x g] by (metis size_mset)

subsection \<open>Sorting by the key\<close>

lemma inj_charset_key: "inj_on charset_key A"
  by (simp add: inj_on_def charset_key_def)

lemma sort_key_order_irrelevant:
  assumes "inj_on f (set xs)" and "distinct xs" and "distinct ys" and "set xs = set ys"
  shows "sort_key f xs = sort_key f ys"
proof -
  have dx: "distinct (map f (sort_key f xs))"
    using assms(1,2) by (simp add: distinct_map)
  have dy: "distinct (map f (sort_key f ys))"
    using assms(1,3,4) by (simp add: distinct_map)
  have "set (map f (sort_key f xs)) = set (map f (sort_key f ys))"
    using assms(4) by simp
  then have "map f (sort_key f xs) = map f (sort_key f ys)"
    using dx dy by (intro sorted_distinct_set_unique) simp_all
  moreover have "inj_on f (set (sort_key f xs) \<union> set (sort_key f ys))"
    using assms(1,4) by simp
  ultimately show ?thesis
    by (simp add: inj_on_map_eq_map)
qed

lemma sorted_key_split:
  "sorted (map (\<lambda>c. (P c = False, c)) xs) \<Longrightarrow>
     xs = filter P xs @ filter (\<lambda>c. \<not> P c) xs
     \<and> sorted (filter P xs) \<and> sorted (filter (\<lambda>c. \<not> P c) xs)"
proof (induction xs)
  case Nil
  then show ?case by simp
next
  case (Cons x xs)
  then have IH: "xs = filter P xs @ filter (\<lambda>c. \<not> P c) xs"
      "sorted (filter P xs)" "sorted (filter (\<lambda>c. \<not> P c) xs)"
    by simp_all
  from Cons.prems have le: "\<forall>y \<in> set xs. (P x = False, x) \<le> (P y = False, y)"
    by simp
  show ?case
  proof (cases "P x")
    case True
    with le have "\<forall>y \<in> set xs. P y \<longrightarrow> x \<le> y" by auto
    with True IH show ?thesis by auto
  next
    case False
    with le have all: "\<forall>y \<in> set xs. \<not> P y \<and> x \<le> y" by auto
    then have "filter P xs = []" "filter (\<lambda>c. \<not> P c) xs = xs"
      by (simp_all add: filter_empty_conv filter_id_conv)
    with False IH all show ?thesis by auto
  qed
qed


lemma build_charset_sorted_key:
  "sorted (map charset_key (build_charset set_iter l u d s a))"
  by (simp add: build_charset_def Let_def)

lemma build_charset_distinct:
  "py_set_order set_iter \<Longrightarrow> distinct (build_charset set_iter l u d s a)"
  by (simp add: build_charset_def Let_def py_set_order_def)

lemma build_charset_order_irrelevant:
  assumes "py_set_order it1" and "py_set_order it2"
  shows "build_charset it1 l u d s a = build_charset it2 l u d s a"
proof -
  have "sort_key charset_key (it1 xs) = sort_key charset_key (it2 xs)" for xs
    using assms by (intro sort_key_order_irrelevant inj_charset_key) (simp_all add: py_set_order_def)
  then show ?thesis by (simp add: build_charset_def Let_def)
qed

lemma code_point_sorted:
  "sorted xs \<Longrightarrow> distinct xs \<Longrightarrow>
     sorted_wrt (\<lambda>x y. (of_char x :: nat) < of_char y) xs"
proof -
  assume "sorted xs" "distinct xs"
  then have "sorted_wrt (<) xs" by (simp add: strict_sorted_iff)
  then show ?thesis
    by (rule sorted_wrt_mono_rel [rotated]) (simp add: less_char_def)
qed

subsection \<open>Conversion of an \<open>int\<close> to a \<open>float\<close>\<close>





subsection \<open>The labels\<close>

lemma strength_label_range:
  "range strength_label = {''Very Weak'', ''Weak'', ''Reasonable'', ''Strong'', ''Very Strong''}"
proof
  show "range strength_label \<subseteq> {''Very Weak'', ''Weak'', ''Reasonable'', ''Strong'', ''Very Strong''}"
    by (auto simp: strength_label_def)
next
  have "strength_label 0 = ''Very Weak''" "strength_label 30 = ''Weak''"
    "strength_label 50 = ''Reasonable''" "strength_label 70 = ''Strong''"
    "strength_label 90 = ''Very Strong''"
    by (simp_all add: strength_label_def)
  then show "{''Very Weak'', ''Weak'', ''Reasonable'', ''Strong'', ''Very Strong''} \<subseteq> range strength_label"
    by (metis empty_subsetI insert_subset rangeI)
qed

section \<open>Properties of \<open>build_charset\<close>\<close>

text \<open>
  Claim C4. For every combination of the five flags, \<open>build_charset\<close> is deterministic:
  whatever order the set of line 41 is iterated in, the result is the same string. The
  result has no duplicate character, and it consists of its alphanumeric characters in
  strictly ascending code-point order followed by its other characters in strictly
  ascending code-point order.
\<close>

theorem build_charset_deterministic_ordered:
  assumes "py_set_order it1" and "py_set_order it2"
  shows "build_charset it1 l u d s a = build_charset it2 l u d s a
    \<and> distinct (build_charset it1 l u d s a)
    \<and> build_charset it1 l u d s a =
        filter isalnum (build_charset it1 l u d s a)
        @ filter (\<lambda>c. \<not> isalnum c) (build_charset it1 l u d s a)
    \<and> sorted_wrt (\<lambda>x y. (of_char x :: nat) < of_char y)
        (filter isalnum (build_charset it1 l u d s a))
    \<and> sorted_wrt (\<lambda>x y. (of_char x :: nat) < of_char y)
        (filter (\<lambda>c. \<not> isalnum c) (build_charset it1 l u d s a))"
proof -
  let ?out = "build_charset it1 l u d s a"
  have "sorted (map (\<lambda>c. (isalnum c = False, c)) ?out)"
    using build_charset_sorted_key [of it1 l u d s a] by (simp add: charset_key_def [abs_def])
  from sorted_key_split [OF this]
  have split: "?out = filter isalnum ?out @ filter (\<lambda>c. \<not> isalnum c) ?out"
    and s1: "sorted (filter isalnum ?out)"
    and s2: "sorted (filter (\<lambda>c. \<not> isalnum c) ?out)"
    by blast+
  have d: "distinct ?out" using assms(1) by (rule build_charset_distinct)
  have "sorted_wrt (\<lambda>x y. (of_char x :: nat) < of_char y) (filter isalnum ?out)"
    using s1 d by (intro code_point_sorted) simp_all
  moreover have "sorted_wrt (\<lambda>x y. (of_char x :: nat) < of_char y)
      (filter (\<lambda>c. \<not> isalnum c) ?out)"
    using s2 d by (intro code_point_sorted) simp_all
  moreover note build_charset_order_irrelevant [OF assms, of l u d s a] d split
  ultimately show ?thesis by blast
qed

text \<open>
  The hypotheses of C4 hold of two different iteration orders, \<open>remdups\<close> and its
  reverse, which therefore give the same alphabet.
\<close>

theorem build_charset_deterministic_ordered_witness:
  "py_set_order remdups \<and> py_set_order (\<lambda>xs. rev (remdups xs))
   \<and> build_charset remdups True False True True True
       = build_charset (\<lambda>xs. rev (remdups xs)) True False True True True
   \<and> distinct (build_charset remdups True False True True True)
   \<and> build_charset remdups True False True True True =
        filter isalnum (build_charset remdups True False True True True)
        @ filter (\<lambda>c. \<not> isalnum c) (build_charset remdups True False True True True)
   \<and> sorted_wrt (\<lambda>x y. (of_char x :: nat) < of_char y)
        (filter isalnum (build_charset remdups True False True True True))
   \<and> sorted_wrt (\<lambda>x y. (of_char x :: nat) < of_char y)
        (filter (\<lambda>c. \<not> isalnum c) (build_charset remdups True False True True True))"
proof -
  have h1: "py_set_order remdups"
    by (simp add: py_set_order_def)
  have h2: "py_set_order (\<lambda>xs. rev (remdups xs))"
    by (simp add: py_set_order_def)
  show ?thesis
    by (rule conjI [OF h1 conjI [OF h2
          build_charset_deterministic_ordered [OF h1 h2, of True False True True True]]])
qed

text \<open>
  Claim C5. For every combination of the four class flags, when the exclusion flag is
  true none of the ambiguous characters O, 0, I, l, 1 is in the alphabet that
  \<open>build_charset\<close> returns.
\<close>

theorem build_charset_excludes_ambiguous:
  assumes "py_set_order set_iter"
  shows "\<forall>c \<in> {CHR ''O'', CHR ''0'', CHR ''I'', CHR ''l'', CHR ''1''}.
           c \<notin> set (build_charset set_iter l u d s True)"
proof -
  have "set (build_charset set_iter l u d s True) \<inter> set AMBIGUOUS_CHARS = {}"
    using assms by (auto simp: build_charset_def py_set_order_def Let_def)
  then show ?thesis by (auto simp: AMBIGUOUS_CHARS_def)
qed

text \<open>C5 at all four classes selected, with \<open>remdups\<close> as the iteration order.\<close>

theorem build_charset_excludes_ambiguous_witness:
  "py_set_order remdups
   \<and> CHR ''O'' \<notin> set (build_charset remdups True True True True True)
   \<and> CHR ''0'' \<notin> set (build_charset remdups True True True True True)
   \<and> CHR ''I'' \<notin> set (build_charset remdups True True True True True)
   \<and> CHR ''l'' \<notin> set (build_charset remdups True True True True True)
   \<and> CHR ''1'' \<notin> set (build_charset remdups True True True True True)"
proof -
  have h: "py_set_order remdups"
    by (simp add: py_set_order_def)
  from build_charset_excludes_ambiguous [OF h, of True True True True] h
  show ?thesis by simp
qed

section \<open>Properties of \<open>generate_single_password\<close>\<close>

text \<open>
  Claim C1. For every non-empty alphabet and every length of at least 1 (and, when
  \<open>require_each\<close> is true, provided every supplied class pool is a non-empty subset of
  the alphabet and the length is at least the number of non-empty class pools),
  \<open>generate_single_password\<close> returns, for every state of the random source, a string of
  exactly \<open>length\<close> characters, each of them a member of the alphabet.
\<close>

theorem generate_single_password_length_alphabet:
  assumes "charset \<noteq> []" and "1 \<le> len"
    and "require_each \<Longrightarrow>
           (\<forall>cls \<in> set (classes_list classes). snd cls \<noteq> [] \<and> set (snd cls) \<subseteq> set charset)
           \<and> int (length (nonempty_classes classes)) \<le> len"
  shows "\<exists>pw g'. generate_single_password len charset require_each classes g = Inr (pw, g')
           \<and> int (length pw) = len \<and> (\<forall>c \<in> set pw. c \<in> set charset)"
proof (cases "require_each \<and> classes_list classes \<noteq> []")
  case True
  with assms(3) have enough: "int (length (nonempty_classes classes)) \<le> len"
    by blast
  from True assms(3)
  have pools: "\<forall>cls \<in> set (nonempty_classes classes). set (snd cls) \<subseteq> set charset"
    unfolding nonempty_classes_def by auto
  from generate_required_branch [OF assms(1,2) _ _ enough, of require_each g] True
  obtain pw0 ex g2 where
    all2: "list_all2 (\<lambda>cls c. c \<in> set (snd cls)) (nonempty_classes classes) pw0"
    and ex: "length ex = nat (len - int (length pw0))" "set ex \<subseteq> set charset"
    and res: "generate_single_password len charset require_each classes g
                = Inr (shuffle (pw0 @ ex) g2)"
    by blast
  have len0: "length pw0 = length (nonempty_classes classes)"
    using all2 by (simp add: list_all2_lengthD)
  have "set pw0 \<subseteq> set charset"
  proof
    fix c assume "c \<in> set pw0"
    then obtain i where i: "i < length pw0" "pw0 ! i = c"
      by (auto simp: in_set_conv_nth)
    with all2 len0 have "c \<in> set (snd (nonempty_classes classes ! i))"
      by (auto simp: list_all2_conv_all_nth)
    moreover have "nonempty_classes classes ! i \<in> set (nonempty_classes classes)"
      using i len0 by simp
    ultimately show "c \<in> set charset" using pools by blast
  qed
  with ex(2) have sub: "set (fst (shuffle (pw0 @ ex) g2)) \<subseteq> set charset"
    by (simp add: set_shuffle)
  have "int (length (fst (shuffle (pw0 @ ex) g2))) = len"
    using ex(1) len0 enough by (simp add: length_shuffle)
  with sub res show ?thesis
    by (cases "shuffle (pw0 @ ex) g2") auto
next
  case False
  obtain pw g' where "join_choices (nat len) charset g = Inr (pw, g')"
      "length pw = nat len" "set pw \<subseteq> set charset"
    using join_choices_ok [OF assms(1)] by blast
  with generate_plain_branch [OF assms(1,2) False, of g] assms(2) show ?thesis
    by auto
qed

text \<open>
  C1 at length 4 over the alphabet \<open>abc1\<close> with the classes \<open>abc\<close> and \<open>1\<close> required.
\<close>

theorem generate_single_password_length_alphabet_witness:
  "''abc1'' \<noteq> [] \<and> (1::int) \<le> 4
   \<and> classes_list (Some [(''lower'', ''abc''), (''digits'', ''1'')])
       = [(''lower'', ''abc''), (''digits'', ''1'')]
   \<and> ''abc'' \<noteq> [] \<and> set ''abc'' \<subseteq> set ''abc1''
   \<and> ''1'' \<noteq> [] \<and> set ''1'' \<subseteq> set ''abc1''
   \<and> int (length (nonempty_classes (Some [(''lower'', ''abc''), (''digits'', ''1'')]))) \<le> 4
   \<and> (\<exists>pw g'. generate_single_password 4 ''abc1'' True
                  (Some [(''lower'', ''abc''), (''digits'', ''1'')]) id = Inr (pw, g')
         \<and> int (length pw) = 4 \<and> (\<forall>c \<in> set pw. c \<in> set ''abc1''))"
proof -
  let ?classes = "Some [(''lower'', ''abc''), (''digits'', ''1'')]"
  have h1: "''abc1'' \<noteq> []" by simp
  have h2: "(1::int) \<le> 4" by simp
  have cl: "classes_list ?classes = [(''lower'', ''abc''), (''digits'', ''1'')]"
    by (simp add: classes_list_def)
  have pools: "''abc'' \<noteq> [] \<and> set ''abc'' \<subseteq> set ''abc1''
      \<and> ''1'' \<noteq> [] \<and> set ''1'' \<subseteq> set ''abc1''"
    by simp
  have enough: "int (length (nonempty_classes ?classes)) \<le> 4"
    by (simp add: classes_list_def nonempty_classes_def)
  have h3: "(\<forall>cls \<in> set (classes_list ?classes).
         snd cls \<noteq> [] \<and> set (snd cls) \<subseteq> set ''abc1'')
     \<and> int (length (nonempty_classes ?classes)) \<le> 4"
    using enough by (simp add: cl)
  from generate_single_password_length_alphabet [OF h1 h2 h3, of True id] h1 h2 cl pools enough
  show ?thesis by blast
qed

text \<open>
  Claim C2. For every call with \<open>require_each\<close> true and a non-empty list of classes, if
  the length is at least the number of classes with a non-empty pool, the returned
  password contains at least one character from every class whose pool is non-empty. The
  call returns a password whenever the alphabet is non-empty and the length is at least 1.
\<close>

theorem generate_single_password_each_class:
  assumes "require_each" and "classes_list classes \<noteq> []"
    and "int (length (nonempty_classes classes)) \<le> len"
  shows "(charset \<noteq> [] \<and> 1 \<le> len \<longrightarrow>
            (\<exists>pw g'. generate_single_password len charset require_each classes g = Inr (pw, g')))
       \<and> (\<forall>pw g'. generate_single_password len charset require_each classes g = Inr (pw, g') \<longrightarrow>
            (\<forall>cls \<in> set (classes_list classes). snd cls \<noteq> [] \<longrightarrow>
               (\<exists>c \<in> set (snd cls). c \<in> set pw)))"
proof (cases "charset \<noteq> [] \<and> 1 \<le> len")
  case False
  then show ?thesis by (auto simp: generate_single_password_def)
next
  case True
  then have c: "charset \<noteq> []" and l: "1 \<le> len" by simp_all
  from generate_required_branch [OF c l assms, of g]
  obtain pw0 ex g2 where
    all2: "list_all2 (\<lambda>cls c. c \<in> set (snd cls)) (nonempty_classes classes) pw0"
    and res: "generate_single_password len charset require_each classes g
                = Inr (shuffle (pw0 @ ex) g2)"
    by blast
  have each: "\<exists>c \<in> set (snd cls). c \<in> set (fst (shuffle (pw0 @ ex) g2))"
    if "cls \<in> set (classes_list classes)" "snd cls \<noteq> []" for cls
  proof -
    from that have "cls \<in> set (nonempty_classes classes)"
      by (simp add: nonempty_classes_def)
    then obtain i where i: "i < length (nonempty_classes classes)"
        "nonempty_classes classes ! i = cls"
      by (auto simp: in_set_conv_nth)
    with all2 have in_pool: "pw0 ! i \<in> set (snd cls)" and bound: "i < length pw0"
      by (auto simp: list_all2_conv_all_nth)
    from bound have "pw0 ! i \<in> set (pw0 @ ex)" by simp
    with in_pool show ?thesis unfolding set_shuffle by blast
  qed
  show ?thesis
  proof (intro conjI impI allI ballI)
    show "\<exists>pw g'. generate_single_password len charset require_each classes g = Inr (pw, g')"
      using res by (cases "shuffle (pw0 @ ex) g2") auto
  next
    fix pw g' cls
    assume "generate_single_password len charset require_each classes g = Inr (pw, g')"
      and "cls \<in> set (classes_list classes)" and "snd cls \<noteq> []"
    with res each [of cls] show "\<exists>c \<in> set (snd cls). c \<in> set pw"
      by (cases "shuffle (pw0 @ ex) g2") auto
  qed
qed

text \<open>
  C2 at length 2 with two non-empty classes and one empty class: the password has a
  character of each of the two non-empty pools.
\<close>

theorem generate_single_password_each_class_witness:
  "classes_list (Some [(''lower'', ''abc''), (''digits'', ''1''), (''symbols'', [])]) \<noteq> []
   \<and> int (length (nonempty_classes
         (Some [(''lower'', ''abc''), (''digits'', ''1''), (''symbols'', [])]))) \<le> 2
   \<and> (\<exists>pw g'. generate_single_password 2 ''abc1'' True
         (Some [(''lower'', ''abc''), (''digits'', ''1''), (''symbols'', [])]) id = Inr (pw, g')
        \<and> (\<exists>c \<in> set ''abc''. c \<in> set pw) \<and> (\<exists>c \<in> set ''1''. c \<in> set pw))"
proof -
  let ?classes = "Some [(''lower'', ''abc''), (''digits'', ''1''), (''symbols'', [])]"
  have h1: "True" by simp
  have h2: "classes_list ?classes \<noteq> []" by (simp add: classes_list_def)
  have h3: "int (length (nonempty_classes ?classes)) \<le> 2"
    by (simp add: classes_list_def nonempty_classes_def)
  from generate_single_password_each_class [OF h1 h2 h3, of "''abc1''" id]
  obtain pw g' where
    res: "generate_single_password 2 ''abc1'' True ?classes id = Inr (pw, g')"
    and each: "\<forall>cls \<in> set (classes_list ?classes). snd cls \<noteq> [] \<longrightarrow>
                 (\<exists>c \<in> set (snd cls). c \<in> set pw)"
    by auto
  from each have "(\<exists>c \<in> set ''abc''. c \<in> set pw) \<and> (\<exists>c \<in> set ''1''. c \<in> set pw)"
    by (simp add: classes_list_def)
  with res h2 h3 show ?thesis by blast
qed

text \<open>
  Claim C3, as stated, says that the call fails with the invalid-length error whenever the
  length is below 1, and with the too-short error whenever the length is below the number
  of non-empty classes. The checks run in sequence and the first that fails decides: at
  length 0 with an empty alphabet the error is the empty-alphabet one, and at length 0
  with one required class it is the invalid-length one.
\<close>

theorem generate_single_password_errors_counterexample:
  "(0::int) < 1 \<and> generate_single_password 0 [] False None id \<noteq> Inl InvalidLengthError
   \<and> 0 < int (length (nonempty_classes (Some [(''lower'', ''a'')])))
   \<and> generate_single_password 0 ''a'' True (Some [(''lower'', ''a'')]) id
       \<noteq> Inl LengthTooShortError"
  by (simp add: generate_single_password_def InvalidLengthError_def LengthTooShortError_def
      nonempty_classes_def classes_list_def)

text \<open>
  Claim C3, amended. \<open>generate_single_password\<close> fails with the empty-alphabet error
  whenever the alphabet is empty; with the invalid-length error whenever the alphabet is
  non-empty and the length is below 1; and, when \<open>require_each\<close> is true with a non-empty
  list of classes, with the too-short error whenever the alphabet is non-empty and the
  length is at least 1 and below the number of classes with a non-empty pool. On each of
  these failures no password is produced.
\<close>

theorem generate_single_password_errors:
  "(charset = [] \<longrightarrow>
      generate_single_password len charset require_each classes g = Inl EmptyAlphabetError)
   \<and> (charset \<noteq> [] \<and> len < 1 \<longrightarrow>
      generate_single_password len charset require_each classes g = Inl InvalidLengthError)
   \<and> (charset \<noteq> [] \<and> 1 \<le> len \<and> require_each \<and> classes_list classes \<noteq> []
        \<and> len < int (length (nonempty_classes classes)) \<longrightarrow>
      generate_single_password len charset require_each classes g = Inl LengthTooShortError)
   \<and> (charset = [] \<or> len < 1
        \<or> (require_each \<and> classes_list classes \<noteq> []
            \<and> len < int (length (nonempty_classes classes))) \<longrightarrow>
      (\<forall>pw g'. generate_single_password len charset require_each classes g \<noteq> Inr (pw, g')))"
  by (auto simp: generate_single_password_def EmptyAlphabetError_def InvalidLengthError_def
      LengthTooShortError_def nonempty_classes_def Let_def)

text \<open>The amended C3 at one input for each of the three errors.\<close>

theorem generate_single_password_errors_witness:
  "generate_single_password 8 [] False None id = Inl EmptyAlphabetError
   \<and> generate_single_password 0 ''ab'' False None id = Inl InvalidLengthError
   \<and> generate_single_password 1 ''ab1'' True (Some [(''lower'', ''ab''), (''digits'', ''1'')]) id
       = Inl LengthTooShortError
   \<and> (\<forall>pw g'. generate_single_password 1 ''ab1'' True
          (Some [(''lower'', ''ab''), (''digits'', ''1'')]) id \<noteq> Inr (pw, g'))"
  using generate_single_password_errors [of "[]" 8 False None id]
    generate_single_password_errors [of "''ab''" 0 False None id]
    generate_single_password_errors [of "''ab1''" 1 True
      "Some [(''lower'', ''ab''), (''digits'', ''1'')]" id]
  by (simp add: classes_list_def nonempty_classes_def)

text \<open>
  Claim C9. The preconditions are checked in a fixed order: the alphabet, then the length,
  then the number of required classes. With an empty alphabet the error is the
  empty-alphabet one whatever the length (at length 0 too); with a non-empty alphabet and a
  length below 1 it is the invalid-length one whatever the classes; the too-short error
  occurs only when the first two checks have passed. The three errors are different.
\<close>

theorem generate_single_password_check_order:
  "generate_single_password len [] require_each classes g = Inl EmptyAlphabetError
   \<and> generate_single_password 0 [] require_each classes g = Inl EmptyAlphabetError
   \<and> (charset \<noteq> [] \<and> len < 1 \<longrightarrow>
        generate_single_password len charset require_each classes g = Inl InvalidLengthError)
   \<and> (generate_single_password len charset require_each classes g = Inl LengthTooShortError \<longrightarrow>
        charset \<noteq> [] \<and> 1 \<le> len)
   \<and> EmptyAlphabetError \<noteq> InvalidLengthError
   \<and> InvalidLengthError \<noteq> LengthTooShortError
   \<and> EmptyAlphabetError \<noteq> LengthTooShortError"
  by (auto simp: generate_single_password_def EmptyAlphabetError_def InvalidLengthError_def
      LengthTooShortError_def Let_def split: if_splits)

text \<open>
  C9 at length 0 with one required class, over the empty alphabet and over the alphabet
  \<open>a\<close>.
\<close>

theorem generate_single_password_check_order_witness:
  "generate_single_password 0 [] True (Some [(''lower'', ''a'')]) id = Inl EmptyAlphabetError
   \<and> generate_single_password 0 [] True (Some [(''lower'', ''a'')]) id
        \<noteq> Inl InvalidLengthError
   \<and> ''a'' \<noteq> [] \<and> (0::int) < 1
   \<and> generate_single_password 0 ''a'' True (Some [(''lower'', ''a'')]) id
        = Inl InvalidLengthError
   \<and> generate_single_password 0 ''a'' True (Some [(''lower'', ''a'')]) id
        \<noteq> Inl LengthTooShortError"
  using generate_single_password_check_order [of 0 True "Some [(''lower'', ''a'')]" id "''a''"]
  by simp

section \<open>Properties of the entropy estimate\<close>

text \<open>
  Claim C6. \<open>strength_label\<close> classifies its argument into exactly five labels, with the
  lower bound of each band inclusive: below 28 Very Weak, from 28 below 36 Weak, from 36
  below 60 Reasonable, from 60 below 80 Strong, from 80 on Very Strong; at 28 the label is
  Weak and at 80 it is Very Strong.
\<close>

theorem strength_label_bands:
  "(bits < 28 \<longrightarrow> strength_label bits = ''Very Weak'')
   \<and> (28 \<le> bits \<and> bits < 36 \<longrightarrow> strength_label bits = ''Weak'')
   \<and> (36 \<le> bits \<and> bits < 60 \<longrightarrow> strength_label bits = ''Reasonable'')
   \<and> (60 \<le> bits \<and> bits < 80 \<longrightarrow> strength_label bits = ''Strong'')
   \<and> (80 \<le> bits \<longrightarrow> strength_label bits = ''Very Strong'')
   \<and> strength_label 28 = ''Weak''
   \<and> strength_label 80 = ''Very Strong''
   \<and> range strength_label = {''Very Weak'', ''Weak'', ''Reasonable'', ''Strong'', ''Very Strong''}
   \<and> card (range strength_label) = 5"
proof -
  have "card (range strength_label) = 5"
    unfolding strength_label_range by simp
  then show ?thesis
    using strength_label_range by (simp add: strength_label_def)
qed

text \<open>C6 at the values 27.9, 28, 59.9, 60 and 80, one in each band.\<close>

theorem strength_label_bands_witness:
  "strength_label 27.9 = ''Very Weak''
   \<and> strength_label 28 = ''Weak''
   \<and> strength_label 59.9 = ''Reasonable''
   \<and> strength_label 60 = ''Strong''
   \<and> strength_label 80 = ''Very Strong''"
  using strength_label_bands [of "27.9"] strength_label_bands [of 28]
    strength_label_bands [of "59.9"] strength_label_bands [of 60] strength_label_bands [of 80]
  by simp




text \<open>
  Claim C10. \<open>strength_label\<close> is monotone: for \<open>b1 \<le> b2\<close> the label of \<open>b1\<close> is at or below
  the label of \<open>b2\<close> in the order Very Weak, Weak, Reasonable, Strong, Very Strong.
\<close>

theorem strength_label_monotone:
  assumes "b1 \<le> b2"
  shows "\<exists>r1 r2. label_rank (strength_label b1) = Some r1
           \<and> label_rank (strength_label b2) = Some r2 \<and> r1 \<le> r2"
  using assms by (simp add: strength_label_def label_rank_def)

text \<open>C10 at 30 and 70, whose labels are Weak and Strong.\<close>

theorem strength_label_monotone_witness:
  "(30::real) \<le> 70
   \<and> (\<exists>r1 r2. label_rank (strength_label 30) = Some r1
           \<and> label_rank (strength_label 70) = Some r2 \<and> r1 \<le> r2)"
proof -
  have h: "(30::real) \<le> 70" by simp
  from strength_label_monotone [OF h] h show ?thesis by blast
qed

end
